theory Spec2Isabelle
  imports Main "HOL-Library.Word" "HOL-Library.Sublist"
begin

unbundle bit_operations_syntax

section \<open>Strings (package strings of the standard library, as the code uses it)\<close>

text \<open>
  A Go string is a sequence of bytes; \<open>string\<close> (a list of 8-bit characters) is the
  same thing.  \<open>byte_of\<close> reads the numeric value of a byte.
\<close>

definition byte_of :: "char \<Rightarrow> nat" where
  "byte_of c = of_char c"

text \<open>\<open>strings.HasPrefix(s, prefix)\<close>: \<open>len(s) >= len(prefix) && s[:len(prefix)] == prefix\<close>.\<close>

definition HasPrefix :: "string \<Rightarrow> string \<Rightarrow> bool" where
  "HasPrefix s p = (length p \<le> length s \<and> take (length p) s = p)"

text \<open>\<open>strings.Contains(s, substr)\<close>: some suffix of \<open>s\<close> starts with \<open>substr\<close>.\<close>

fun Contains :: "string \<Rightarrow> string \<Rightarrow> bool" where
  "Contains [] sub = HasPrefix [] sub"
| "Contains (c # s) sub = (HasPrefix (c # s) sub \<or> Contains s sub)"

text \<open>
  \<open>strings.ToLower\<close>.  The library scans the bytes once: a byte \<open>>= 0x80\<close>
  (\<open>utf8.RuneSelf\<close>) makes the string non-ASCII.  An ASCII string without an upper-case
  letter is returned as it is; otherwise each byte in \<open>'A'..'Z'\<close> gets
  \<open>'a' - 'A'\<close> added.  A non-ASCII string goes through
  \<open>strings.Map(unicode.ToLower, s)\<close>: it is decoded rune by rune, and each rune is
  mapped and written back.  A byte below \<open>0x80\<close> is a rune of its own wherever it
  stands (it never continues a multi-byte sequence, and a sequence cut short by it is
  invalid just as at the end of the string), and \<open>unicode.ToLower\<close> maps it as the
  ASCII path does.  What the library makes of a maximal run of bytes \<open>>= 0x80\<close>
  (UTF-8 decoding, the Unicode case tables, encoding, \<open>U+FFFD\<close> for invalid bytes)
  is not part of this repository: it is the parameter \<open>unicodeLower\<close>.
\<close>

definition isUpperByte :: "char \<Rightarrow> bool" where
  "isUpperByte c = (byte_of (CHR ''A'') \<le> byte_of c \<and> byte_of c \<le> byte_of (CHR ''Z''))"

definition lowerByte :: "char \<Rightarrow> char" where
  "lowerByte c = (if isUpperByte c then char_of (byte_of c + (byte_of (CHR ''a'') - byte_of (CHR ''A''))) else c)"

definition isASCII :: "string \<Rightarrow> bool" where
  "isASCII s = list_all (\<lambda>c. byte_of c < 128) s"

definition hasUpper :: "string \<Rightarrow> bool" where
  "hasUpper s = list_ex isUpperByte s"

fun Map_ToLower :: "(string \<Rightarrow> string) \<Rightarrow> string \<Rightarrow> string \<Rightarrow> string" where
  "Map_ToLower unicodeLower run [] = (if run = [] then [] else unicodeLower run)"
| "Map_ToLower unicodeLower run (c # cs) =
     (if byte_of c < 128
      then (if run = [] then [] else unicodeLower run) @
           lowerByte c # Map_ToLower unicodeLower [] cs
      else Map_ToLower unicodeLower (run @ [c]) cs)"

definition ToLower :: "(string \<Rightarrow> string) \<Rightarrow> string \<Rightarrow> string" where
  "ToLower unicodeLower s =
     (if isASCII s then (if \<not> hasUpper s then s else map lowerByte s)
      else Map_ToLower unicodeLower [] s)"

section \<open>Interface classification and selection (package net of the repository)\<close>

record NetworkInfo =
  IP :: string
  Interface :: string
  Type :: string

text \<open>\<open>classifyInterface\<close>: the three chains of tests, in the order of the source.\<close>

definition classifyInterface :: "(string \<Rightarrow> string) \<Rightarrow> string \<Rightarrow> string" where
  "classifyInterface unicodeLower name =
     (let nameLower = ToLower unicodeLower name in
      if HasPrefix nameLower ''docker'' \<or>
         HasPrefix nameLower ''veth'' \<or>
         HasPrefix nameLower ''br-'' \<or>
         HasPrefix nameLower ''virbr'' \<or>
         HasPrefix nameLower ''vmnet'' \<or>
         HasPrefix nameLower ''vbox''
      then ''virtual''
      else if HasPrefix nameLower ''wlan'' \<or>
         HasPrefix nameLower ''wl'' \<or>
         HasPrefix nameLower ''wifi'' \<or>
         Contains nameLower ''wi-fi''
      then ''wifi''
      else if HasPrefix nameLower ''eth'' \<or>
         HasPrefix nameLower ''en'' \<or>
         HasPrefix nameLower ''em'' \<or>
         HasPrefix nameLower ''eno'' \<or>
         HasPrefix nameLower ''enp'' \<or>
         HasPrefix nameLower ''ens''
      then ''ethernet''
      else ''ethernet'')"

text \<open>
  \<open>PrioritizeInterfaces\<close>.  The first loop appends each interface to \<open>physical\<close> or to
  \<open>virtual\<close>; the second returns at the first physical interface of type wifi or
  ethernet.  A nil pointer is \<open>None\<close>.
\<close>

fun partition_loop :: "NetworkInfo list \<Rightarrow> NetworkInfo list \<Rightarrow> NetworkInfo list
    \<Rightarrow> NetworkInfo list \<times> NetworkInfo list" where
  "partition_loop [] physical virtual = (physical, virtual)"
| "partition_loop (iface # rest) physical virtual =
     (if Type iface = ''virtual''
      then partition_loop rest physical (virtual @ [iface])
      else partition_loop rest (physical @ [iface]) virtual)"

fun prefer_loop :: "NetworkInfo list \<Rightarrow> NetworkInfo option" where
  "prefer_loop [] = None"
| "prefer_loop (iface # rest) =
     (if Type iface = ''wifi'' \<or> Type iface = ''ethernet'' then Some iface
      else prefer_loop rest)"

definition PrioritizeInterfaces :: "NetworkInfo list \<Rightarrow> NetworkInfo option" where
  "PrioritizeInterfaces interfaces =
     (if length interfaces = 0 then None
      else case partition_loop interfaces [] [] of (physical, virtual) \<Rightarrow>
        if length physical > 0 then
          (case prefer_loop physical of
             Some iface \<Rightarrow> Some iface
           | None \<Rightarrow> Some (physical ! 0))
        else if length virtual > 0 then Some (virtual ! 0)
        else None)"






section \<open>Addresses (package net of the standard library, as the code uses it)\<close>

text \<open>
  \<open>net.IP\<close> is a byte slice of length 4 or 16; the nil slice is the empty list.
  \<open>To4\<close> returns the 4-byte form of an IPv4 address, also of one stored in the
  16-byte IPv4-in-IPv6 form (ten zero bytes, \<open>0xff 0xff\<close>, four bytes), and nil
  (\<open>None\<close>) otherwise.
\<close>

type_synonym byte = "8 word"
type_synonym net_IP = "byte list"

definition isZeros :: "net_IP \<Rightarrow> bool" where
  "isZeros p = list_all (\<lambda>b. b = 0) p"

definition To4 :: "net_IP \<Rightarrow> net_IP option" where
  "To4 ip =
     (if length ip = 4 then Some ip
      else if length ip = 16 \<and> isZeros (take 10 ip) \<and> ip ! 10 = 0xff \<and> ip ! 11 = 0xff
      then Some (drop 12 ip)
      else None)"

text \<open>
  The dotted-quad parser behind \<open>net.ParseIP\<close> (\<open>netip.parseIPv4\<close>): one pass over
  the bytes with the value and the digit count of the current field, the octets read so
  far, and the previous byte (\<open>None\<close> at index 0).  A digit after a lone \<open>0\<close>, a
  value above 255, a dot at either end or after a dot, a fourth dot, any other byte and
  fewer than three dots are errors (\<open>None\<close>).
\<close>

definition isDigit :: "char \<Rightarrow> bool" where
  "isDigit c = (byte_of (CHR ''0'') \<le> byte_of c \<and> byte_of c \<le> byte_of (CHR ''9''))"

fun parseIPv4_loop :: "char option \<Rightarrow> nat \<Rightarrow> nat \<Rightarrow> nat list \<Rightarrow> string \<Rightarrow> nat list option" where
  "parseIPv4_loop prev val digLen octets [] =
     (if length octets < 3 then None else Some (octets @ [val]))"
| "parseIPv4_loop prev val digLen octets (c # cs) =
     (if isDigit c then
        (if digLen = 1 \<and> val = 0 then None
         else if val * 10 + (byte_of c - byte_of (CHR ''0'')) > 255 then None
         else parseIPv4_loop (Some c) (val * 10 + (byte_of c - byte_of (CHR ''0''))) (digLen + 1) octets cs)
      else if c = CHR ''.'' then
        (if prev = None \<or> cs = [] \<or> prev = Some (CHR ''.'') then None
         else if length octets = 3 then None
         else parseIPv4_loop (Some c) 0 0 (octets @ [val]) cs)
      else None)"

definition parseIPv4 :: "string \<Rightarrow> net_IP option" where
  "parseIPv4 s = map_option (map of_nat) (parseIPv4_loop None 0 0 [] s)"

text \<open>\<open>As16\<close> of an IPv4 address: the IPv4-in-IPv6 form.\<close>

definition v4InV6 :: "net_IP \<Rightarrow> net_IP" where
  "v4InV6 p4 = replicate 10 0 @ [0xff, 0xff] @ p4"

text \<open>
  \<open>net.ParseIP\<close>: the first \<open>.\<close>, \<open>:\<close> or \<open>%\<close> of the string decides; a dot sends
  the whole string to the dotted-quad parser, a colon to the IPv6 parser, a percent sign
  or none of the three is an error.  The IPv6 parser is the parameter \<open>parseIPv6\<close>:
  it returns the 16 bytes of an accepted address without zone, and \<open>None\<close> otherwise.
\<close>

fun ParseIP_scan :: "(string \<Rightarrow> net_IP option) \<Rightarrow> string \<Rightarrow> string \<Rightarrow> net_IP option" where
  "ParseIP_scan parseIPv6 s [] = None"
| "ParseIP_scan parseIPv6 s (c # cs) =
     (if c = CHR ''.'' then map_option v4InV6 (parseIPv4 s)
      else if c = CHR '':'' then parseIPv6 s
      else if c = CHR ''%'' then None
      else ParseIP_scan parseIPv6 s cs)"

definition ParseIP :: "(string \<Rightarrow> net_IP option) \<Rightarrow> string \<Rightarrow> net_IP option" where
  "ParseIP parseIPv6 s = ParseIP_scan parseIPv6 s s"

text \<open>
  \<open>IP.String\<close> of an address whose \<open>To4\<close> is \<open>p4\<close>: the four bytes in decimal,
  joined by dots.  \<open>appendDecimal\<close> writes a byte without leading zeros.
\<close>

definition digits :: "nat \<Rightarrow> char" where
  "digits n = char_of (byte_of (CHR ''0'') + n)"

definition appendDecimal :: "string \<Rightarrow> nat \<Rightarrow> string" where
  "appendDecimal b x =
     (let b1 = (if x \<ge> 100 then b @ [digits (x div 100)] else b);
          b2 = (if x \<ge> 10 then b1 @ [digits (x div 10 mod 10)] else b1)
      in b2 @ [digits (x mod 10)])"

definition ipv4_String :: "net_IP \<Rightarrow> string" where
  "ipv4_String p4 =
     appendDecimal (appendDecimal (appendDecimal (appendDecimal [] (unat (p4 ! 0)) @ ''.'')
       (unat (p4 ! 1)) @ ''.'') (unat (p4 ! 2)) @ ''.'') (unat (p4 ! 3))"

section \<open>The scanner (package net of the repository)\<close>

text \<open>\<open>IsPrivateIP\<close>: parse, convert to four bytes, then the three range tests.\<close>

definition IsPrivateIP :: "(string \<Rightarrow> net_IP option) \<Rightarrow> string \<Rightarrow> bool" where
  "IsPrivateIP parseIPv6 ipStr =
     (case ParseIP parseIPv6 ipStr of
        None \<Rightarrow> False
      | Some ip \<Rightarrow>
          (case To4 ip of
             None \<Rightarrow> False
           | Some ip4 \<Rightarrow>
               if ip4 ! 0 = 10 then True
               else if ip4 ! 0 = 172 \<and> ip4 ! 1 \<ge> 16 \<and> ip4 ! 1 \<le> 31 then True
               else if ip4 ! 0 = 192 \<and> ip4 ! 1 = 168 then True
               else False))"

text \<open>
  What \<open>net.Interfaces()\<close> and \<open>iface.Addrs()\<close> hand to the scanner.  An address is a
  \<open>*net.IPNet\<close> (address and mask), a \<open>*net.IPAddr\<close> (address and zone) or of another
  dynamic type.  \<open>Addrs\<close> is the result of the call \<open>iface.Addrs()\<close>, which may fail.
  \<open>Flags\<close> is an unsigned machine word of which the scanner reads bit 0
  (\<open>FlagUp\<close>) and bit 2 (\<open>FlagLoopback\<close>); the fields it never reads are left out.
\<close>

datatype error =
    OSError string
  | Wrapped string error
  | ErrorMsg string
  | Canceled
  | DeadlineExceeded

datatype Addr = IPNet net_IP "byte list" | IPAddr net_IP string | OtherAddr

record net_Interface =
  Name :: string
  Flags :: "32 word"
  Addrs :: "error + Addr list"

definition FlagUp :: "32 word" where
  "FlagUp = push_bit 0 1"

definition FlagLoopback :: "32 word" where
  "FlagLoopback = push_bit 2 1"

text \<open>The type switch of the inner loop; \<open>ip\<close> stays nil for another dynamic type.\<close>

fun addr_IP :: "Addr \<Rightarrow> net_IP" where
  "addr_IP (IPNet ip m) = ip"
| "addr_IP (IPAddr ip z) = ip"
| "addr_IP OtherAddr = []"

fun addr_loop :: "(string \<Rightarrow> net_IP option) \<Rightarrow> (string \<Rightarrow> string) \<Rightarrow> net_Interface
    \<Rightarrow> Addr list \<Rightarrow> NetworkInfo list \<Rightarrow> NetworkInfo list" where
  "addr_loop parseIPv6 unicodeLower iface [] result = result"
| "addr_loop parseIPv6 unicodeLower iface (addr # rest) result =
     (case To4 (addr_IP addr) of
        None \<Rightarrow> addr_loop parseIPv6 unicodeLower iface rest result
      | Some p4 \<Rightarrow>
          if \<not> IsPrivateIP parseIPv6 (ipv4_String p4)
          then addr_loop parseIPv6 unicodeLower iface rest result
          else addr_loop parseIPv6 unicodeLower iface rest
                 (result @ [\<lparr>IP = ipv4_String p4, Interface = Name iface,
                              Type = classifyInterface unicodeLower (Name iface)\<rparr>]))"

fun iface_loop :: "(string \<Rightarrow> net_IP option) \<Rightarrow> (string \<Rightarrow> string) \<Rightarrow> net_Interface list
    \<Rightarrow> NetworkInfo list \<Rightarrow> NetworkInfo list" where
  "iface_loop parseIPv6 unicodeLower [] result = result"
| "iface_loop parseIPv6 unicodeLower (iface # rest) result =
     (if Flags iface AND FlagUp = 0 then iface_loop parseIPv6 unicodeLower rest result
      else if Flags iface AND FlagLoopback \<noteq> 0 then iface_loop parseIPv6 unicodeLower rest result
      else case Addrs iface of
             Inl err \<Rightarrow> iface_loop parseIPv6 unicodeLower rest result
           | Inr addrs \<Rightarrow>
               iface_loop parseIPv6 unicodeLower rest
                 (addr_loop parseIPv6 unicodeLower iface addrs result))"

definition GetAllInterfaces :: "(string \<Rightarrow> net_IP option) \<Rightarrow> (string \<Rightarrow> string)
    \<Rightarrow> error + net_Interface list \<Rightarrow> error + NetworkInfo list" where
  "GetAllInterfaces parseIPv6 unicodeLower net_Interfaces =
     (case net_Interfaces of
        Inl err \<Rightarrow> Inl err
      | Inr ifaces \<Rightarrow> Inr (iface_loop parseIPv6 unicodeLower ifaces []))"

definition DetectLocalIP :: "(string \<Rightarrow> net_IP option) \<Rightarrow> (string \<Rightarrow> string)
    \<Rightarrow> error + net_Interface list \<Rightarrow> error + NetworkInfo" where
  "DetectLocalIP parseIPv6 unicodeLower net_Interfaces =
     (case GetAllInterfaces parseIPv6 unicodeLower net_Interfaces of
        Inl err \<Rightarrow> Inl (Wrapped ''failed to get network interfaces: '' err)
      | Inr interfaces \<Rightarrow>
          if length interfaces = 0 then Inl (ErrorMsg ''no active network interfaces found'')
          else case PrioritizeInterfaces interfaces of
                 None \<Rightarrow> Inl (ErrorMsg ''no suitable private IP address found'')
               | Some selected \<Rightarrow> Inr selected)"

text \<open>The private ranges of the specification, on the first two bytes of an address.\<close>

definition rfc1918 :: "net_IP \<Rightarrow> bool" where
  "rfc1918 p4 =
     (length p4 = 4 \<and>
      (unat (p4 ! 0) = 10 \<or>
       (unat (p4 ! 0) = 172 \<and> 16 \<le> unat (p4 ! 1) \<and> unat (p4 ! 1) \<le> 31) \<or>
       (unat (p4 ! 0) = 192 \<and> unat (p4 ! 1) = 168)))"

text \<open>An interface the scanner reads addresses from: up and not loopback.\<close>

definition usable :: "net_Interface \<Rightarrow> bool" where
  "usable iface = (Flags iface AND FlagUp \<noteq> 0 \<and> Flags iface AND FlagLoopback = 0)"

text \<open>The decimal form of one byte, and the candidate the scanner makes of one address.\<close>

definition octet :: "nat \<Rightarrow> string" where
  "octet x = appendDecimal [] x"

definition from_addr :: "(string \<Rightarrow> net_IP option) \<Rightarrow> (string \<Rightarrow> string) \<Rightarrow> net_Interface \<Rightarrow> Addr \<Rightarrow> NetworkInfo \<Rightarrow> bool" where
  "from_addr p6 U iface addr c =
     (\<exists>p4. To4 (addr_IP addr) = Some p4 \<and> IsPrivateIP p6 (ipv4_String p4) \<and>
        c = \<lparr>IP = ipv4_String p4, Interface = Name iface, Type = classifyInterface U (Name iface)\<rparr>)"

section \<open>The change watcher (package net of the repository)\<close>

text \<open>
  \<open>IPWatcher\<close>.  \<open>Interval\<close> is a \<open>time.Duration\<close> (64-bit nanoseconds).  The
  callback \<open>OnChange\<close> may be nil; when it runs it acts on whatever lies outside the
  watcher, the state \<open>'e\<close> here.  \<open>stopCh\<close> is a channel on which nothing is ever
  sent: all that matters is whether it is nil, open or closed.  The mutex \<open>mu\<close> only
  orders the accesses of concurrent goroutines and has no counterpart in this
  sequential model.
\<close>

datatype chan = NilChan | OpenChan | ClosedChan

record 'e IPWatcher =
  CurrentIP :: string
  Interval :: "64 word"
  OnChange :: "(string \<Rightarrow> string \<Rightarrow> 'e \<Rightarrow> 'e) option"
  stopCh :: chan
  stopped :: bool

definition NewIPWatcher :: "64 word \<Rightarrow> 'e IPWatcher" where
  "NewIPWatcher interval =
     \<lparr>CurrentIP = [], Interval = (if interval = 0 then 5 * 1000000000 else interval),
      OnChange = None, stopCh = OpenChan, stopped = False\<rparr>"

text \<open>
  The panics of the watcher.  \<open>close\<close> of a nil or of a closed channel panics, and so
  does \<open>time.NewTicker\<close> with a duration that is not positive.
\<close>

datatype panic = CloseOfNilChannel | CloseOfClosedChannel | NonPositiveInterval

text \<open>
  \<open>Stop\<close>.  A panic of \<open>close\<close> is \<open>Inl\<close>; by then \<open>stopped\<close> has been set.
\<close>

definition Stop :: "'e IPWatcher \<Rightarrow> panic + 'e IPWatcher" where
  "Stop w =
     (if stopped w then Inr w
      else case stopCh w of
             OpenChan \<Rightarrow> Inr (w\<lparr>stopped := True, stopCh := ClosedChan\<rparr>)
           | NilChan \<Rightarrow> Inl CloseOfNilChannel
           | ClosedChan \<Rightarrow> Inl CloseOfClosedChannel)"

text \<open>
  \<open>checkIPChange\<close>.  \<open>detect\<close> is what the call \<open>DetectLocalIP()\<close> returns at this
  moment.  The result is the returned error (\<open>None\<close> for nil), the watcher and the
  outside state.
\<close>

definition checkIPChange :: "error + NetworkInfo \<Rightarrow> 'e IPWatcher \<times> 'e
    \<Rightarrow> error option \<times> 'e IPWatcher \<times> 'e" where
  "checkIPChange detect we =
     (case we of (w, e) \<Rightarrow>
        case detect of
          Inl err \<Rightarrow> (Some err, w, e)
        | Inr netInfo \<Rightarrow>
            let oldIP = CurrentIP w; newIP = IP netInfo in
            if oldIP \<noteq> newIP then
              (None, w\<lparr>CurrentIP := newIP\<rparr>,
               case OnChange w of None \<Rightarrow> e | Some f \<Rightarrow> f oldIP newIP e)
            else (None, w, e))"

text \<open>
  The \<open>for\<close>/\<open>select\<close> loop of \<open>Start\<close>, driven by what happens while it runs, in
  order: \<open>CtxDone err\<close>, the context is done with \<open>ctx.Err() = err\<close> and the select
  takes that case; \<open>RecvStop\<close>, the select takes the receive from \<open>stopCh\<close>, which
  is ready only once the channel is closed (before that the event does not occur and is
  passed over); \<open>Tick detect\<close>, the select takes the ticker and \<open>DetectLocalIP()\<close>
  returns \<open>detect\<close>; \<open>StopCalled\<close>, another goroutine calls \<open>Stop\<close> between two
  selects.  When the events are used up the loop is still waiting in the select
  (\<open>Waiting\<close>).  The last component of the result is the list of events not reached.
\<close>

datatype event = CtxDone error | RecvStop | Tick "error + NetworkInfo" | StopCalled

datatype outcome = Returned "error option" | Waiting | Panicked panic

fun monitor :: "'e IPWatcher \<times> 'e \<Rightarrow> event list \<Rightarrow> outcome \<times> ('e IPWatcher \<times> 'e) \<times> event list" where
  "monitor we [] = (Waiting, we, [])"
| "monitor we (CtxDone err # rest) = (Returned (Some err), we, rest)"
| "monitor we (RecvStop # rest) =
     (if stopCh (fst we) = ClosedChan then (Returned None, we, rest) else monitor we rest)"
| "monitor we (Tick detect # rest) =
     (case checkIPChange detect we of
        (Some err, we') \<Rightarrow> monitor we' rest
      | (None, we') \<Rightarrow> monitor we' rest)"
| "monitor we (StopCalled # rest) =
     (case Stop (fst we) of
        Inl p \<Rightarrow> (Panicked p, we, rest)
      | Inr w' \<Rightarrow> monitor (w', snd we) rest)"

text \<open>
  \<open>Start\<close>; \<open>initial\<close> is what the first call \<open>DetectLocalIP()\<close> returns.  After
  the initial address is stored, \<open>time.NewTicker(w.Interval)\<close> panics unless the
  interval, a signed 64-bit number of nanoseconds, is positive; only then the loop
  starts.
\<close>

definition Start :: "error + NetworkInfo \<Rightarrow> 'e IPWatcher \<times> 'e \<Rightarrow> event list
    \<Rightarrow> outcome \<times> ('e IPWatcher \<times> 'e) \<times> event list" where
  "Start initial we events =
     (case we of (w, e) \<Rightarrow>
        if stopped w then (Returned None, (w, e), events)
        else case initial of
               Inl err \<Rightarrow> (Returned (Some err), (w, e), events)
             | Inr netInfo \<Rightarrow>
                 if sint (Interval w) \<le> 0
                 then (Panicked NonPositiveInterval, (w\<lparr>CurrentIP := IP netInfo\<rparr>, e), events)
                 else monitor (w\<lparr>CurrentIP := IP netInfo\<rparr>, e) events)"

text \<open>A callback that records its calls, to count them.\<close>

definition record_call :: "string \<Rightarrow> string \<Rightarrow> (string \<times> string) list \<Rightarrow> (string \<times> string) list" where
  "record_call oldIP newIP calls = calls @ [(oldIP, newIP)]"

section \<open>The URL rewrite (package cmd of the repository)\<close>

text \<open>
  \<open>strings.ReplaceAll(s, old, new)\<close> for a nonempty \<open>old\<close>: the occurrences of
  \<open>old\<close> are found from left to right, each search starting behind the previous
  occurrence.  An empty \<open>old\<close>, for which the library inserts \<open>new\<close> around every
  UTF-8 sequence, is never passed by this program; the model leaves the string as it is.
\<close>

function replace_from :: "string \<Rightarrow> string \<Rightarrow> string \<Rightarrow> string" where
  "replace_from old new [] = []"
| "replace_from old new (c # cs) =
     (if old \<noteq> [] \<and> HasPrefix (c # cs) old
      then new @ replace_from old new (drop (length old) (c # cs))
      else c # replace_from old new cs)"
  by pat_completeness auto
termination
  by (relation "measure (\<lambda>(old, new, s). length s)") auto

definition ReplaceAll :: "string \<Rightarrow> string \<Rightarrow> string \<Rightarrow> string" where
  "ReplaceAll s old new = (if old = new then s else replace_from old new s)"

definition transformURL :: "string \<Rightarrow> string \<Rightarrow> string" where
  "transformURL url newIP =
     (let url1 = ReplaceAll url ''localhost'' newIP;
          url2 = ReplaceAll url1 ''127.0.0.1'' newIP
      in url2)"

text \<open>
  The reading of the specification: a value is a sequence of pieces of text and of
  tokens; the rewrite puts the address in the place of each token.
\<close>

datatype piece = Text string | Localhost | Loopback

fun piece_text :: "piece \<Rightarrow> string" where
  "piece_text (Text s) = s"
| "piece_text Localhost = ''localhost''"
| "piece_text Loopback = ''127.0.0.1''"

definition render :: "piece list \<Rightarrow> string" where
  "render ps = concat (map piece_text ps)"

fun subst_piece :: "string \<Rightarrow> piece \<Rightarrow> string" where
  "subst_piece ip (Text s) = s"
| "subst_piece ip Localhost = ip"
| "subst_piece ip Loopback = ip"

definition subst :: "string \<Rightarrow> piece list \<Rightarrow> string" where
  "subst ip ps = concat (map (subst_piece ip) ps)"

text \<open>
  \<open>starts_in tok s rest\<close>: an occurrence of \<open>tok\<close> in \<open>s @ rest\<close> begins within
  \<open>s\<close>.  \<open>only_marked tok target ps\<close>: in the rendered pieces no occurrence of
  \<open>tok\<close> begins inside a piece other than the pieces \<open>target\<close>.
\<close>

fun starts_in :: "string \<Rightarrow> string \<Rightarrow> string \<Rightarrow> bool" where
  "starts_in tok [] rest = False"
| "starts_in tok (c # s) rest = (prefix tok (c # s @ rest) \<or> starts_in tok s rest)"

fun only_marked :: "string \<Rightarrow> piece \<Rightarrow> piece list \<Rightarrow> bool" where
  "only_marked tok target [] = True"
| "only_marked tok target (p # ps) =
     ((p = target \<or> \<not> starts_in tok (piece_text p) (render ps)) \<and> only_marked tok target ps)"

text \<open>The pieces after the first pass: each \<open>localhost\<close> has become the address.\<close>

fun after_first_pass :: "string \<Rightarrow> piece \<Rightarrow> piece" where
  "after_first_pass ip Localhost = Text ip"
| "after_first_pass ip p = p"

section \<open>The env file (package env of the repository)\<close>

record EnvVar =
  Key :: string
  Value :: string
  Managed :: bool

record EnvWriter =
  FilePath :: string
  BackupEnabled :: bool

text \<open>
  Modelled from the spec: \<open>NewEnvWriter\<close>, \<open>EnvWriter.Merge\<close>, \<open>EnvWriter.Backup\<close>
  and \<open>EnvWriter.Write\<close> are called by the \<open>start\<close> command and exercised by the
  tests of package env, but the file that defines them is not among the sources.
  The tests fix the two fields of the writer and that a new writer has backups enabled.
\<close>

definition NewEnvWriter :: "string \<Rightarrow> EnvWriter" where
  "NewEnvWriter path = \<lparr>FilePath = path, BackupEnabled = True\<rparr>"

text \<open>
  Modelled from the spec: \<open>EnvWriter.Merge\<close> (section 4.6).  Every new variable,
  marked managed, in the order given; then every existing variable that is not managed
  and whose key is not among the new ones, in its original order.  A managed existing
  variable is never copied.
\<close>

definition Merge :: "EnvWriter \<Rightarrow> EnvVar list \<Rightarrow> EnvVar list \<Rightarrow> EnvVar list" where
  "Merge w newVars existing =
     map (\<lambda>v. v\<lparr>Managed := True\<rparr>) newVars @
     filter (\<lambda>v. \<not> Managed v \<and> Key v \<notin> set (map Key newVars)) existing"

text \<open>
  The file system: the content of each existing file, and which paths can be written.
  An operation returns its error (\<open>None\<close> for nil) and the file system it leaves.
\<close>

record filesystem =
  files :: "string \<rightharpoonup> string"
  writable :: "string \<Rightarrow> bool"

datatype fs_error = PermissionDenied string

definition writeFile :: "string \<Rightarrow> string \<Rightarrow> filesystem \<Rightarrow> fs_error option \<times> filesystem" where
  "writeFile path content fs =
     (if writable fs path then (None, fs\<lparr>files := (files fs)(path \<mapsto> content)\<rparr>)
      else (Some (PermissionDenied path), fs))"

text \<open>
  Modelled from the spec: \<open>EnvWriter.Backup\<close> (sections 4.6 and 6).  The content of
  the file at the output path is copied to the path with \<open>.bak\<close> appended; without a
  file at the output path nothing happens and no error is returned.
\<close>

definition Backup :: "EnvWriter \<Rightarrow> filesystem \<Rightarrow> fs_error option \<times> filesystem" where
  "Backup w fs =
     (case files fs (FilePath w) of
        None \<Rightarrow> (None, fs)
      | Some content \<Rightarrow> writeFile (FilePath w @ ''.bak'') content fs)"

text \<open>
  Modelled from the spec: \<open>EnvWriter.Write\<close> (sections 4.6 and 7).  The backup comes
  first, when the writer has backups enabled; a failure of it is returned and nothing
  else is written.  Then the file is overwritten with the formatted variables.  The
  layout of the file (header with the generation time, marker lines, separator) is the
  parameter \<open>format\<close>.
\<close>

definition Write :: "(EnvVar list \<Rightarrow> string) \<Rightarrow> EnvWriter \<Rightarrow> EnvVar list \<Rightarrow> filesystem
    \<Rightarrow> fs_error option \<times> filesystem" where
  "Write format w vars fs =
     (case (if BackupEnabled w then Backup w fs else (None, fs)) of
        (Some err, fs1) \<Rightarrow> (Some err, fs1)
      | (None, fs1) \<Rightarrow> writeFile (FilePath w) (format vars) fs1)"

section \<open>Facts about the string functions\<close>

lemma HasPrefix_prefix: "HasPrefix s p = prefix p s"
  by (auto simp: HasPrefix_def prefix_def min_def) (metis append_eq_conv_conj)


section \<open>Classification\<close>



















section \<open>Selection\<close>

lemma partition_loop_filter:
  "partition_loop xs p v =
     (p @ filter (\<lambda>i. Type i \<noteq> ''virtual'') xs, v @ filter (\<lambda>i. Type i = ''virtual'') xs)"
  by (induction xs arbitrary: p v) auto

lemma prefer_loop_find:
  "prefer_loop xs = find (\<lambda>i. Type i = ''wifi'' \<or> Type i = ''ethernet'') xs"
  by (induction xs) auto

lemma find_filter_weaker:
  "(\<And>x. P x \<Longrightarrow> Q x) \<Longrightarrow> find P (filter Q xs) = find P xs"
  by (induction xs) auto

lemma filter_head_find:
  "filter Q xs \<noteq> [] \<Longrightarrow> Some (filter Q xs ! 0) = find Q xs"
  by (induction xs) auto

lemma filter_empty_find: "filter Q xs = [] \<Longrightarrow> find Q xs = None"
  by (induction xs) (auto split: if_splits)

text \<open>
  C4.  \<open>PrioritizeInterfaces\<close> returns the first candidate, in the order of the list,
  whose type is wifi or ethernet; without one, the first candidate that is not virtual;
  without one, the first virtual candidate; and nothing for the empty list.
\<close>

theorem PrioritizeInterfaces_policy:
  "PrioritizeInterfaces interfaces =
     (case find (\<lambda>i. Type i = ''wifi'' \<or> Type i = ''ethernet'') interfaces of
        Some i \<Rightarrow> Some i
      | None \<Rightarrow>
          (case find (\<lambda>i. Type i \<noteq> ''virtual'') interfaces of
             Some i \<Rightarrow> Some i
           | None \<Rightarrow> find (\<lambda>i. Type i = ''virtual'') interfaces))
   \<and> PrioritizeInterfaces [] = None"
proof (cases "interfaces = []")
  case True
  then show ?thesis by (simp add: PrioritizeInterfaces_def)
next
  case False
  let ?phys = "filter (\<lambda>i. Type i \<noteq> ''virtual'') interfaces"
  let ?virt = "filter (\<lambda>i. Type i = ''virtual'') interfaces"
  have pref: "prefer_loop ?phys = find (\<lambda>i. Type i = ''wifi'' \<or> Type i = ''ethernet'') interfaces"
    unfolding prefer_loop_find by (rule find_filter_weaker) auto
  have empty: "PrioritizeInterfaces [] = None"
    by (simp add: PrioritizeInterfaces_def)
  show ?thesis
  proof (cases "?phys = []")
    case True
    then have none: "find (\<lambda>i. Type i \<noteq> ''virtual'') interfaces = None"
      by (rule filter_empty_find)
    have "find (\<lambda>i. Type i = ''wifi'' \<or> Type i = ''ethernet'') interfaces = None"
      using pref True by simp
    moreover have all_virtual: "?virt = interfaces"
      using True by (simp add: filter_empty_conv)
    moreover have "find (\<lambda>i. Type i = ''virtual'') interfaces = Some (interfaces ! 0)"
      using False filter_head_find[of "\<lambda>i. Type i = ''virtual''" interfaces] all_virtual
      by simp
    ultimately show ?thesis using False True none empty
      by (simp add: PrioritizeInterfaces_def partition_loop_filter)
  next
    case nonempty: False
    have "find (\<lambda>i. Type i \<noteq> ''virtual'') interfaces = Some (?phys ! 0)"
      using filter_head_find[OF nonempty] by simp
    then show ?thesis using False nonempty pref empty
      by (simp add: PrioritizeInterfaces_def partition_loop_filter split: option.splits)
  qed
qed

section \<open>The change watcher\<close>

lemma checkIPChange_stopped: "stopped (fst (snd (checkIPChange d we))) = stopped (fst we)"
  by (cases we) (auto simp: checkIPChange_def Let_def split: sum.splits option.splits)

lemma Stop_stopped: "Stop w = Inr w' \<Longrightarrow> stopped w'"
  by (auto simp: Stop_def split: if_splits chan.splits)

lemma monitor_stopped:
  "stopped (fst we) \<Longrightarrow> stopped (fst (fst (snd (monitor we evs))))"
proof (induction we evs rule: monitor.induct)
  case (4 we detect rest)
  obtain r we' where c: "checkIPChange detect we = (r, we')" by (cases "checkIPChange detect we")
  have "stopped (fst we')" using checkIPChange_stopped[of detect we] c "4.prems" by simp
  then show ?case using 4 c by (cases r) auto
next
  case (5 we rest)
  then show ?case by (auto simp: Stop_def split: sum.splits)
qed auto

text \<open>
  C6.  The initial address is stored without running the callback: whatever the first
  detection returns and whatever the watcher, \<open>Start\<close> leaves the outside state
  untouched as long as no event has occurred, and it enters the loop, or panics in
  \<open>time.NewTicker\<close> when the interval is not positive, with the outside state as it
  was.  A tick whose detected address differs
  from the stored one runs the callback once, on the pair of the stored and the detected
  address, and stores the detected address; with the recording callback the log grows by
  exactly that pair.  A tick whose detected address equals the stored one changes
  nothing.
\<close>

theorem watcher_callback:
  fixes w :: "'e IPWatcher" and wl :: "(string \<times> string) list IPWatcher"
  shows
  "snd (fst (snd (Start initial (w, e) []))) = e
   \<and> (\<not> stopped w \<longrightarrow>
      Start (Inr ni) (w, e) evs =
        (if sint (Interval w) \<le> 0
         then (Panicked NonPositiveInterval, (w\<lparr>CurrentIP := IP ni\<rparr>, e), evs)
         else monitor (w\<lparr>CurrentIP := IP ni\<rparr>, e) evs))
   \<and> (\<not> stopped w \<and> 0 < sint (Interval w) \<longrightarrow>
      Start (Inr ni) (w, e) [] = (Waiting, (w\<lparr>CurrentIP := IP ni\<rparr>, e), []))
   \<and> (OnChange w = Some f \<and> IP ni \<noteq> CurrentIP w \<longrightarrow>
      checkIPChange (Inr ni) (w, e) = (None, w\<lparr>CurrentIP := IP ni\<rparr>, f (CurrentIP w) (IP ni) e) \<and>
      monitor (w, e) (Tick (Inr ni) # evs) =
        monitor (w\<lparr>CurrentIP := IP ni\<rparr>, f (CurrentIP w) (IP ni) e) evs)
   \<and> (OnChange wl = Some record_call \<and> IP ni \<noteq> CurrentIP wl \<longrightarrow>
      snd (snd (checkIPChange (Inr ni) (wl, calls))) = calls @ [(CurrentIP wl, IP ni)])
   \<and> (IP ni = CurrentIP w \<longrightarrow>
      checkIPChange (Inr ni) (w, e) = (None, w, e) \<and>
      monitor (w, e) (Tick (Inr ni) # evs) = monitor (w, e) evs)"
  by (auto simp: Start_def checkIPChange_def Let_def record_call_def split: sum.splits)

theorem watcher_callback_witness:
  "\<not> stopped (NewIPWatcher 0 :: (string \<times> string) list IPWatcher)
   \<and> 0 < sint (Interval (NewIPWatcher 0 :: (string \<times> string) list IPWatcher))
   \<and> Start (Inr \<lparr>IP = ''192.168.1.100'', Interface = ''wlan0'', Type = ''wifi''\<rparr>)
        ((NewIPWatcher 0)\<lparr>OnChange := Some record_call\<rparr>, [])
        [Tick (Inr \<lparr>IP = ''192.168.1.101'', Interface = ''wlan0'', Type = ''wifi''\<rparr>),
         Tick (Inr \<lparr>IP = ''192.168.1.101'', Interface = ''wlan0'', Type = ''wifi''\<rparr>)]
       = (Waiting,
          ((NewIPWatcher 0)\<lparr>OnChange := Some record_call, CurrentIP := ''192.168.1.101''\<rparr>,
           [(''192.168.1.100'', ''192.168.1.101'')]), [])"
proof -
  let ?w = "(NewIPWatcher 0 :: (string \<times> string) list IPWatcher)\<lparr>OnChange := Some record_call\<rparr>"
  let ?a = "\<lparr>IP = ''192.168.1.100'', Interface = ''wlan0'', Type = ''wifi''\<rparr>"
  let ?b = "\<lparr>IP = ''192.168.1.101'', Interface = ''wlan0'', Type = ''wifi''\<rparr>"
  have s: "\<not> stopped ?w" by (simp add: NewIPWatcher_def)
  have i: "0 < sint (Interval ?w)" "\<not> sint (Interval ?w) \<le> 0" by (simp_all add: NewIPWatcher_def)
  have c: "OnChange (?w\<lparr>CurrentIP := IP ?a\<rparr>) = Some record_call \<and> IP ?b \<noteq> CurrentIP (?w\<lparr>CurrentIP := IP ?a\<rparr>)"
    by simp
  have d: "IP ?b = CurrentIP (?w\<lparr>CurrentIP := IP ?b\<rparr>)" by simp
  have r1: "Start (Inr ?a) (?w, []) [Tick (Inr ?b), Tick (Inr ?b)]
      = monitor (?w\<lparr>CurrentIP := IP ?a\<rparr>, []) [Tick (Inr ?b), Tick (Inr ?b)]"
    using s i watcher_callback[where w="?w" and ni="?a" and e="[]"
        and evs="[Tick (Inr ?b), Tick (Inr ?b)]"]
    by simp
  have r2: "monitor (?w\<lparr>CurrentIP := IP ?a\<rparr>, []) [Tick (Inr ?b), Tick (Inr ?b)]
      = monitor (?w\<lparr>CurrentIP := IP ?b\<rparr>, record_call ''192.168.1.100'' ''192.168.1.101'' []) [Tick (Inr ?b)]"
    using c watcher_callback[where w="?w\<lparr>CurrentIP := IP ?a\<rparr>" and ni="?b" and e="[]"
        and evs="[Tick (Inr ?b)]" and f=record_call]
    by simp
  have r3: "monitor (?w\<lparr>CurrentIP := IP ?b\<rparr>, [(''192.168.1.100'', ''192.168.1.101'')]) [Tick (Inr ?b)]
      = monitor (?w\<lparr>CurrentIP := IP ?b\<rparr>, [(''192.168.1.100'', ''192.168.1.101'')]) []"
    using d watcher_callback[where w="?w\<lparr>CurrentIP := IP ?b\<rparr>" and ni="?b"
        and e="[(''192.168.1.100'', ''192.168.1.101'')]" and evs="[]"]
    by simp
  show ?thesis
    using s i r1 r2 r3 by (simp add: NewIPWatcher_def record_call_def)
qed

text \<open>
  C7.  A tick whose detection fails leaves the watcher and the outside state as they were
  and the loop goes on with the next event; the loop does not return because of it.
  When the initial detection fails, \<open>Start\<close> returns that error with the watcher and
  the outside state unchanged and no event consumed.
\<close>

theorem watcher_scan_failure:
  "checkIPChange (Inl err) (w, e) = (Some err, w, e)
   \<and> monitor (w, e) (Tick (Inl err) # evs) = monitor (w, e) evs
   \<and> monitor (w, e) [Tick (Inl err)] = (Waiting, (w, e), [])
   \<and> monitor (w, e) (Tick (DetectLocalIP p6 U (Inr [])) # evs) = monitor (w, e) evs
   \<and> (\<not> stopped w \<longrightarrow> Start (Inl err) (w, e) evs = (Returned (Some err), (w, e), evs))"
  by (auto simp: Start_def checkIPChange_def DetectLocalIP_def GetAllInterfaces_def)

theorem watcher_scan_failure_witness:
  "\<not> stopped (NewIPWatcher 0 :: (string \<times> string) list IPWatcher)
   \<and> Start (Inl (ErrorMsg ''no active network interfaces found''))
        ((NewIPWatcher 0)\<lparr>OnChange := Some record_call\<rparr>, [])
        [Tick (Inr \<lparr>IP = ''192.168.1.101'', Interface = ''wlan0'', Type = ''wifi''\<rparr>)]
       = (Returned (Some (ErrorMsg ''no active network interfaces found'')),
          ((NewIPWatcher 0)\<lparr>OnChange := Some record_call\<rparr>, []),
          [Tick (Inr \<lparr>IP = ''192.168.1.101'', Interface = ''wlan0'', Type = ''wifi''\<rparr>)])"
  using watcher_scan_failure[of "ErrorMsg ''no active network interfaces found''"
      "(NewIPWatcher 0 :: (string \<times> string) list IPWatcher)\<lparr>OnChange := Some record_call\<rparr>" "[]"
      "[Tick (Inr \<lparr>IP = ''192.168.1.101'', Interface = ''wlan0'', Type = ''wifi''\<rparr>)]"]
  by (simp add: NewIPWatcher_def)

text \<open>
  C10.  \<open>Stop\<close> on a stopped watcher returns the watcher as it is, without a panic;
  a watcher that \<open>Stop\<close> has returned is stopped, and the loop never clears the flag.
  \<open>Start\<close> on a stopped watcher returns nil at once: watcher, outside state and
  events are untouched, whatever the detection would have returned.  \<open>Stop\<close> on a
  new watcher succeeds.
\<close>

theorem Stop_idempotent:
  fixes w :: "'e IPWatcher"
  shows
  "(stopped w \<longrightarrow> Stop w = Inr w)
   \<and> (Stop w = Inr w' \<longrightarrow> stopped w' \<and> Stop w' = Inr w')
   \<and> (stopped w \<longrightarrow> stopped (fst (fst (snd (monitor (w, e) evs)))))
   \<and> (stopped w \<longrightarrow> Start initial (w, e) evs = (Returned None, (w, e), evs))
   \<and> Stop (NewIPWatcher i :: 'e IPWatcher) = Inr ((NewIPWatcher i)\<lparr>stopped := True, stopCh := ClosedChan\<rparr>)"
proof -
  have "stopped w \<longrightarrow> stopped (fst (fst (snd (monitor (w, e) evs))))"
    using monitor_stopped[of "(w, e)" evs] by simp
  moreover have "Stop w = Inr w' \<longrightarrow> stopped w' \<and> Stop w' = Inr w'"
    by (auto simp: Stop_def split: if_splits chan.splits)
  ultimately show ?thesis
    by (simp add: Start_def Stop_def NewIPWatcher_def)
qed

theorem Stop_idempotent_witness:
  "Stop (NewIPWatcher 0 :: unit IPWatcher) = Inr ((NewIPWatcher 0)\<lparr>stopped := True, stopCh := ClosedChan\<rparr>)
   \<and> stopped ((NewIPWatcher 0 :: unit IPWatcher)\<lparr>stopped := True, stopCh := ClosedChan\<rparr>)
   \<and> Stop ((NewIPWatcher 0 :: unit IPWatcher)\<lparr>stopped := True, stopCh := ClosedChan\<rparr>)
       = Inr ((NewIPWatcher 0)\<lparr>stopped := True, stopCh := ClosedChan\<rparr>)
   \<and> Start (Inr \<lparr>IP = ''10.0.0.5'', Interface = ''eth0'', Type = ''ethernet''\<rparr>)
        ((NewIPWatcher 0 :: unit IPWatcher)\<lparr>stopped := True, stopCh := ClosedChan\<rparr>, ())
        [Tick (Inr \<lparr>IP = ''10.0.0.6'', Interface = ''eth0'', Type = ''ethernet''\<rparr>)]
       = (Returned None, ((NewIPWatcher 0)\<lparr>stopped := True, stopCh := ClosedChan\<rparr>, ()),
          [Tick (Inr \<lparr>IP = ''10.0.0.6'', Interface = ''eth0'', Type = ''ethernet''\<rparr>)])"
proof -
  let ?w = "(NewIPWatcher 0 :: unit IPWatcher)"
  let ?s = "?w\<lparr>stopped := True, stopCh := ClosedChan\<rparr>"
  have a: "Stop ?w = Inr ?s"
    using Stop_idempotent[of ?w ?s "()" "[]" "Inl Canceled" 0] by simp
  have b: "stopped ?s" by simp
  show ?thesis
    using a b Stop_idempotent[of ?w ?s "()" "[]" "Inl Canceled" 0]
      Stop_idempotent[of ?s ?s "()" "[Tick (Inr \<lparr>IP = ''10.0.0.6'', Interface = ''eth0'', Type = ''ethernet''\<rparr>)]"
        "Inr \<lparr>IP = ''10.0.0.5'', Interface = ''eth0'', Type = ''ethernet''\<rparr>" 0]
    by simp
qed

section \<open>Merging and writing the env file\<close>

lemma filter_key_distinct:
  "distinct (map Key vs) \<Longrightarrow> v \<in> set vs \<Longrightarrow>
   filter (\<lambda>r. Key r = Key v) (map (\<lambda>v. v\<lparr>Managed := True\<rparr>) vs) = [v\<lparr>Managed := True\<rparr>]"
proof (induction vs)
  case Nil
  then show ?case by simp
next
  case (Cons a vs)
  show ?case
  proof (cases "a = v")
    case True
    have "Key v \<notin> Key ` set vs" using Cons.prems True by simp
    then have "\<forall>x\<in>set vs. Key x \<noteq> Key v" by (metis imageI)
    then have "filter (\<lambda>r. Key r = Key v) (map (\<lambda>v. v\<lparr>Managed := True\<rparr>) vs) = []"
      by (auto simp: filter_empty_conv)
    then show ?thesis using True by simp
  next
    case False
    then have "v \<in> set vs" using Cons.prems by simp
    moreover have "Key a \<noteq> Key v" using Cons.prems \<open>v \<in> set vs\<close> by auto
    ultimately show ?thesis using Cons by simp
  qed
qed

text \<open>
  C8.  Every new variable is in the merged list with its value and marked managed; when
  the new keys are distinct it is the only entry of its key, so no prior value of that
  key survives.  The entries whose key is not new are exactly the existing unmanaged
  variables with such a key, unchanged and in their order.  An existing managed
  variable whose key is not new is not in the result, and neither is its key when the
  existing keys are distinct.
\<close>

theorem Merge_contract:
  "(\<forall>v\<in>set newVars. v\<lparr>Managed := True\<rparr> \<in> set (Merge w newVars existing))
   \<and> (distinct (map Key newVars) \<longrightarrow>
       (\<forall>v\<in>set newVars.
          filter (\<lambda>r. Key r = Key v) (Merge w newVars existing) = [v\<lparr>Managed := True\<rparr>]))
   \<and> filter (\<lambda>r. Key r \<notin> set (map Key newVars)) (Merge w newVars existing)
       = filter (\<lambda>v. \<not> Managed v \<and> Key v \<notin> set (map Key newVars)) existing
   \<and> (\<forall>v\<in>set existing. Managed v \<and> Key v \<notin> set (map Key newVars) \<longrightarrow>
         v \<notin> set (Merge w newVars existing))
   \<and> (distinct (map Key existing) \<longrightarrow>
       (\<forall>v\<in>set existing. Managed v \<and> Key v \<notin> set (map Key newVars) \<longrightarrow>
         Key v \<notin> set (map Key (Merge w newVars existing))))"
proof -
  let ?new = "map (\<lambda>v. v\<lparr>Managed := True\<rparr>) newVars"
  let ?keep = "filter (\<lambda>v. \<not> Managed v \<and> Key v \<notin> set (map Key newVars)) existing"
  have m: "Merge w newVars existing = ?new @ ?keep" by (simp add: Merge_def)
  have c1: "\<forall>v\<in>set newVars. v\<lparr>Managed := True\<rparr> \<in> set (Merge w newVars existing)"
    by (simp add: m)
  have c2: "distinct (map Key newVars) \<longrightarrow>
       (\<forall>v\<in>set newVars.
          filter (\<lambda>r. Key r = Key v) (Merge w newVars existing) = [v\<lparr>Managed := True\<rparr>])"
  proof (intro impI ballI)
    fix v assume d: "distinct (map Key newVars)" and v: "v \<in> set newVars"
    have "filter (\<lambda>r. Key r = Key v) ?keep = []"
      using v by (auto simp: filter_empty_conv)
    then show "filter (\<lambda>r. Key r = Key v) (Merge w newVars existing) = [v\<lparr>Managed := True\<rparr>]"
      using filter_key_distinct[OF d v] by (simp add: m)
  qed
  have "filter (\<lambda>r. Key r \<notin> set (map Key newVars)) ?new = []"
    by (auto simp: filter_empty_conv)
  moreover have "filter (\<lambda>r. Key r \<notin> set (map Key newVars)) ?keep = ?keep"
    by (auto simp: filter_id_conv)
  ultimately have c3: "filter (\<lambda>r. Key r \<notin> set (map Key newVars)) (Merge w newVars existing) = ?keep"
    by (simp add: m)
  have c4: "\<forall>v\<in>set existing. Managed v \<and> Key v \<notin> set (map Key newVars) \<longrightarrow>
         v \<notin> set (Merge w newVars existing)"
    by (auto simp: m)
  have c5: "distinct (map Key existing) \<longrightarrow>
       (\<forall>v\<in>set existing. Managed v \<and> Key v \<notin> set (map Key newVars) \<longrightarrow>
         Key v \<notin> set (map Key (Merge w newVars existing)))"
  proof (intro impI ballI)
    fix v assume d: "distinct (map Key existing)" and v: "v \<in> set existing"
      and s: "Managed v \<and> Key v \<notin> set (map Key newVars)"
    have "\<And>u. u \<in> set existing \<Longrightarrow> Key u = Key v \<Longrightarrow> u = v"
      using d v by (meson distinct_map inj_onD)
    then have "Key v \<notin> Key ` set ?keep" using s by auto
    moreover have "Key v \<notin> Key ` set ?new" using s by auto
    moreover have "set (map Key (Merge w newVars existing)) = Key ` set ?new \<union> Key ` set ?keep"
      by (simp add: m image_Un image_image)
    ultimately show "Key v \<notin> set (map Key (Merge w newVars existing))"
      by blast
  qed
  from c1 c2 c3 c4 c5 show ?thesis by blast
qed

theorem Merge_contract_witness:
  "Merge (NewEnvWriter ''.env'')
     [\<lparr>Key = ''A'', Value = ''new'', Managed = True\<rparr>, \<lparr>Key = ''C'', Value = ''new'', Managed = True\<rparr>]
     [\<lparr>Key = ''A'', Value = ''old'', Managed = True\<rparr>, \<lparr>Key = ''S'', Value = ''stale'', Managed = True\<rparr>,
      \<lparr>Key = ''B'', Value = ''b'', Managed = False\<rparr>]
   = [\<lparr>Key = ''A'', Value = ''new'', Managed = True\<rparr>, \<lparr>Key = ''C'', Value = ''new'', Managed = True\<rparr>,
      \<lparr>Key = ''B'', Value = ''b'', Managed = False\<rparr>]
   \<and> \<lparr>Key = ''S'', Value = ''stale'', Managed = True\<rparr> \<notin> set (Merge (NewEnvWriter ''.env'')
     [\<lparr>Key = ''A'', Value = ''new'', Managed = True\<rparr>, \<lparr>Key = ''C'', Value = ''new'', Managed = True\<rparr>]
     [\<lparr>Key = ''A'', Value = ''old'', Managed = True\<rparr>, \<lparr>Key = ''S'', Value = ''stale'', Managed = True\<rparr>,
      \<lparr>Key = ''B'', Value = ''b'', Managed = False\<rparr>])"
proof -
  let ?n = "[\<lparr>Key = ''A'', Value = ''new'', Managed = True\<rparr>, \<lparr>Key = ''C'', Value = ''new'', Managed = True\<rparr>]"
  let ?e = "[\<lparr>Key = ''A'', Value = ''old'', Managed = True\<rparr>, \<lparr>Key = ''S'', Value = ''stale'', Managed = True\<rparr>,
      \<lparr>Key = ''B'', Value = ''b'', Managed = False\<rparr>]"
  have eq: "Merge (NewEnvWriter ''.env'') ?n ?e =
     [\<lparr>Key = ''A'', Value = ''new'', Managed = True\<rparr>, \<lparr>Key = ''C'', Value = ''new'', Managed = True\<rparr>,
      \<lparr>Key = ''B'', Value = ''b'', Managed = False\<rparr>]"
    by (simp add: Merge_def)
  have "\<lparr>Key = ''S'', Value = ''stale'', Managed = True\<rparr> \<notin> set (Merge (NewEnvWriter ''.env'') ?n ?e)"
    using Merge_contract[of ?n "NewEnvWriter ''.env''" ?e] by simp
  with eq show ?thesis by simp
qed

text \<open>
  C9.  With backups enabled, as in every writer made by \<open>NewEnvWriter\<close>, and a file at
  the output path: after a successful \<open>Write\<close> the path with \<open>.bak\<close> appended
  holds the prior content and the output path the new content; the output file is never
  changed unless the backup holds the prior content; and the write succeeds when both
  paths can be written.  Without a file at the output path \<open>Backup\<close> returns no
  error and changes nothing, and \<open>Write\<close> just writes the file.
\<close>

theorem Write_backup:
  "(BackupEnabled w \<and> files fs (FilePath w) = Some old \<and> Write format w vars fs = (res, fs') \<longrightarrow>
      (res = None \<longrightarrow>
         files fs' (FilePath w @ ''.bak'') = Some old \<and> files fs' (FilePath w) = Some (format vars)) \<and>
      (files fs' (FilePath w) \<noteq> Some old \<longrightarrow> files fs' (FilePath w @ ''.bak'') = Some old) \<and>
      (writable fs (FilePath w @ ''.bak'') \<and> writable fs (FilePath w) \<longrightarrow> res = None))
   \<and> (files fs (FilePath w) = None \<longrightarrow>
      Backup w fs = (None, fs) \<and>
      Write format w vars fs = writeFile (FilePath w) (format vars) fs)
   \<and> BackupEnabled (NewEnvWriter path) \<and> FilePath (NewEnvWriter path) = path"
  by (auto simp: Write_def Backup_def writeFile_def NewEnvWriter_def split: if_splits option.splits prod.splits)

theorem Write_backup_witness:
  "BackupEnabled (NewEnvWriter ''.env'')
   \<and> files \<lparr>files = [''.env'' \<mapsto> ''OLD_VAR=old_value''], writable = (\<lambda>p. True)\<rparr>
        (FilePath (NewEnvWriter ''.env'')) = Some ''OLD_VAR=old_value''
   \<and> fst (Write (\<lambda>vs. ''NEW_VAR=new_value'') (NewEnvWriter ''.env'') []
        \<lparr>files = [''.env'' \<mapsto> ''OLD_VAR=old_value''], writable = (\<lambda>p. True)\<rparr>) = None
   \<and> files (snd (Write (\<lambda>vs. ''NEW_VAR=new_value'') (NewEnvWriter ''.env'') []
        \<lparr>files = [''.env'' \<mapsto> ''OLD_VAR=old_value''], writable = (\<lambda>p. True)\<rparr>)) ''.env.bak''
       = Some ''OLD_VAR=old_value''
   \<and> files (snd (Write (\<lambda>vs. ''NEW_VAR=new_value'') (NewEnvWriter ''.env'') []
        \<lparr>files = [''.env'' \<mapsto> ''OLD_VAR=old_value''], writable = (\<lambda>p. True)\<rparr>)) ''.env''
       = Some ''NEW_VAR=new_value''
   \<and> files \<lparr>files = Map.empty, writable = (\<lambda>p. True)\<rparr> (FilePath (NewEnvWriter ''.env'')) = None
   \<and> Backup (NewEnvWriter ''.env'') \<lparr>files = Map.empty, writable = (\<lambda>p. True)\<rparr>
       = (None, \<lparr>files = Map.empty, writable = (\<lambda>p. True)\<rparr>)"
proof -
  let ?w = "NewEnvWriter ''.env''"
  let ?fs = "\<lparr>files = [''.env'' \<mapsto> ''OLD_VAR=old_value''], writable = (\<lambda>p. True)\<rparr>"
  let ?f = "\<lambda>vs::EnvVar list. ''NEW_VAR=new_value''"
  let ?r = "Write ?f ?w [] ?fs"
  have h: "BackupEnabled ?w \<and> files ?fs (FilePath ?w) = Some ''OLD_VAR=old_value''
      \<and> Write ?f ?w [] ?fs = (fst ?r, snd ?r)"
    by (simp add: NewEnvWriter_def)
  have p: "FilePath ?w = ''.env''" by (simp add: NewEnvWriter_def)
  have n: "files \<lparr>files = Map.empty, writable = (\<lambda>p. True)\<rparr> (FilePath ?w) = None" by simp
  show ?thesis
    using h n Write_backup[of ?w ?fs "''OLD_VAR=old_value''" ?f "[]" "fst ?r" "snd ?r" "''.env''"]
      Write_backup[of ?w "\<lparr>files = Map.empty, writable = (\<lambda>p. True)\<rparr>" "''x''" ?f "[]" None
        "\<lparr>files = Map.empty, writable = (\<lambda>p. True)\<rparr>" "''.env''"]
    by (simp add: p)
qed

section \<open>Parsing and printing addresses\<close>

lemma digits_props:
  "n < 10 \<Longrightarrow> isDigit (digits n)"
  "n < 10 \<Longrightarrow> byte_of (digits n) - byte_of (CHR ''0'') = n"
  "n < 10 \<Longrightarrow> digits n \<noteq> CHR ''.''"
  "n < 10 \<Longrightarrow> digits n \<noteq> CHR '':''"
  "n < 10 \<Longrightarrow> digits n \<noteq> CHR ''%''"
  by (auto simp: digits_def isDigit_def byte_of_def char_of_eq_iff take_bit_eq_mod)

lemma not_digit_dot: "\<not> isDigit (CHR ''.'')"
  by (simp add: isDigit_def byte_of_def)

lemma appendDecimal_octet: "appendDecimal b x = b @ octet x"
  by (simp add: appendDecimal_def octet_def Let_def)

lemma octet_cases:
  "x < 10 \<Longrightarrow> octet x = [digits x]"
  "10 \<le> x \<Longrightarrow> x < 100 \<Longrightarrow> octet x = [digits (x div 10), digits (x mod 10)]"
  "100 \<le> x \<Longrightarrow> x < 256 \<Longrightarrow> octet x = [digits (x div 100), digits (x div 10 mod 10), digits (x mod 10)]"
  by (auto simp: octet_def appendDecimal_def Let_def)

declare parseIPv4_loop.simps [simp del]

lemma loop_digit:
  "k < 10 \<Longrightarrow> \<not> (dl = 1 \<and> v = 0) \<Longrightarrow> v * 10 + k \<le> 255 \<Longrightarrow>
   parseIPv4_loop prev v dl octs (digits k # rest) =
     parseIPv4_loop (Some (digits k)) (v * 10 + k) (dl + 1) octs rest"
  by (subst parseIPv4_loop.simps(2)) (auto simp: digits_props)

lemma loop_octet:
  assumes "x < 256"
  shows "\<exists>c dl. c \<noteq> CHR ''.'' \<and>
     parseIPv4_loop prev 0 0 octs (octet x @ rest) = parseIPv4_loop (Some c) x dl octs rest"
proof -
  consider "x < 10" | "10 \<le> x" "x < 100" | "100 \<le> x" "x < 256" using assms by linarith
  then show ?thesis
  proof cases
    case 1
    have "parseIPv4_loop prev 0 0 octs (digits x # rest) =
        parseIPv4_loop (Some (digits x)) (0 * 10 + x) (0 + 1) octs rest"
      by (rule loop_digit) (use 1 in simp_all)
    then have "parseIPv4_loop prev 0 0 octs (octet x @ rest) =
        parseIPv4_loop (Some (digits x)) x (0 + 1) octs rest"
      using 1 by (simp add: octet_cases)
    then show ?thesis using digits_props(3)[OF 1] by blast
  next
    case 2
    define h where "h = x div 10"
    define l where "l = x mod 10"
    have a: "h < 10" "l < 10" "0 < h" "h * 10 + l = x"
      using 2 by (auto simp: h_def l_def)
    have o: "octet x @ rest = digits h # digits l # rest"
      using 2 by (simp add: octet_cases h_def l_def)
    have "parseIPv4_loop prev 0 0 octs (digits h # digits l # rest) =
        parseIPv4_loop (Some (digits h)) (0 * 10 + h) (0 + 1) octs (digits l # rest)"
      by (rule loop_digit) (use a in simp_all)
    also have "\<dots> = parseIPv4_loop (Some (digits l)) ((0 * 10 + h) * 10 + l) (0 + 1 + 1) octs rest"
      by (rule loop_digit) (use a 2 in simp_all)
    also have "(0 * 10 + h) * 10 + l = x" using a by simp
    finally have "parseIPv4_loop prev 0 0 octs (octet x @ rest) =
        parseIPv4_loop (Some (digits l)) x (0 + 1 + 1) octs rest"
      by (simp only: o)
    then show ?thesis using digits_props(3)[OF a(2)] by blast
  next
    case 3
    define h where "h = x div 100"
    define m where "m = x div 10 mod 10"
    define l where "l = x mod 10"
    have d: "x div 100 = x div 10 div 10" by (simp add: div_mult2_eq)
    have e: "x div 10 div 10 * 10 + x div 10 mod 10 = x div 10" by simp
    have f: "x div 10 * 10 + x mod 10 = x" by simp
    have g: "x div 10 \<le> 25" "0 < x div 100" "x div 100 < 10" using 3 by simp_all
    have a: "h < 10" "m < 10" "l < 10" "0 < h" "(h * 10 + m) * 10 + l = x" "h * 10 + m \<le> 255"
      unfolding h_def m_def l_def d e f using g by (simp_all add: d)
    have o: "octet x @ rest = digits h # digits m # digits l # rest"
      using 3 by (simp add: octet_cases h_def m_def l_def)
    have "parseIPv4_loop prev 0 0 octs (digits h # digits m # digits l # rest) =
        parseIPv4_loop (Some (digits h)) (0 * 10 + h) (0 + 1) octs (digits m # digits l # rest)"
      by (rule loop_digit) (use a in simp_all)
    also have "\<dots> = parseIPv4_loop (Some (digits m)) ((0 * 10 + h) * 10 + m) (0 + 1 + 1) octs (digits l # rest)"
      by (rule loop_digit) (use a in simp_all)
    also have "\<dots> = parseIPv4_loop (Some (digits l)) (((0 * 10 + h) * 10 + m) * 10 + l) (0 + 1 + 1 + 1) octs rest"
      by (rule loop_digit) (use a 3 in simp_all)
    also have "((0 * 10 + h) * 10 + m) * 10 + l = x" using a by simp
    finally have "parseIPv4_loop prev 0 0 octs (octet x @ rest) =
        parseIPv4_loop (Some (digits l)) x (0 + 1 + 1 + 1) octs rest"
      by (simp only: o)
    then show ?thesis using digits_props(3)[OF a(3)] by blast
  qed
qed

lemma octet_nonempty: "octet x \<noteq> []"
  by (simp add: octet_def appendDecimal_def Let_def)

lemma octet_scan:
  assumes "x < 256"
  shows "ParseIP_scan p6 s (octet x @ CHR ''.'' # rest) = map_option v4InV6 (parseIPv4 s)"
proof -
  consider "x < 10" | "10 \<le> x" "x < 100" | "100 \<le> x" "x < 256" using assms by linarith
  then show ?thesis
  proof cases
    case 1
    then show ?thesis by (simp add: octet_cases digits_props)
  next
    case 2
    then have a: "x div 10 < 10" "x mod 10 < 10" by auto
    show ?thesis using 2 a by (simp add: octet_cases digits_props)
  next
    case 3
    then have a: "x div 100 < 10" "x div 10 mod 10 < 10" "x mod 10 < 10" by auto
    show ?thesis using 3 a by (simp add: octet_cases digits_props)
  qed
qed

lemma loop_dot:
  "c \<noteq> CHR ''.'' \<Longrightarrow> rest \<noteq> [] \<Longrightarrow> length octs < 3 \<Longrightarrow>
   parseIPv4_loop (Some c) val dl octs (CHR ''.'' # rest) = parseIPv4_loop (Some (CHR ''.'')) 0 0 (octs @ [val]) rest"
  by (subst parseIPv4_loop.simps(2)) (simp add: not_digit_dot)

lemma dotted_form:
  "ipv4_String [a, b, c, d] =
     octet (unat a) @ CHR ''.'' # octet (unat b) @ CHR ''.'' # octet (unat c) @ CHR ''.'' # octet (unat d)"
  by (simp add: ipv4_String_def appendDecimal_octet)

lemma parseIPv4_loop_dotted:
  fixes a b c d :: byte
  shows "parseIPv4_loop None 0 0 [] (ipv4_String [a, b, c, d]) = Some [unat a, unat b, unat c, unat d]"
proof -
  have lt: "unat a < 256" "unat b < 256" "unat c < 256" "unat d < 256"
    using unsigned_less[of a, where 'a=nat] unsigned_less[of b, where 'a=nat]
      unsigned_less[of c, where 'a=nat] unsigned_less[of d, where 'a=nat] by simp_all
  let ?r3 = "octet (unat d)"
  let ?r2 = "octet (unat c) @ CHR ''.'' # ?r3"
  let ?r1 = "octet (unat b) @ CHR ''.'' # ?r2"
  obtain c1 d1 where s1: "c1 \<noteq> CHR ''.''"
    "parseIPv4_loop None 0 0 [] (octet (unat a) @ CHR ''.'' # ?r1) = parseIPv4_loop (Some c1) (unat a) d1 [] (CHR ''.'' # ?r1)"
    using loop_octet[OF lt(1), where prev=None and octs="[]" and rest="CHR ''.'' # ?r1"] by blast
  obtain c2 d2 where s2: "c2 \<noteq> CHR ''.''"
    "parseIPv4_loop (Some (CHR ''.'')) 0 0 [unat a] (octet (unat b) @ CHR ''.'' # ?r2) = parseIPv4_loop (Some c2) (unat b) d2 [unat a] (CHR ''.'' # ?r2)"
    using loop_octet[OF lt(2), where prev="Some (CHR ''.'')" and octs="[unat a]" and rest="CHR ''.'' # ?r2"] by blast
  obtain c3 d3 where s3: "c3 \<noteq> CHR ''.''"
    "parseIPv4_loop (Some (CHR ''.'')) 0 0 [unat a, unat b] (octet (unat c) @ CHR ''.'' # ?r3) = parseIPv4_loop (Some c3) (unat c) d3 [unat a, unat b] (CHR ''.'' # ?r3)"
    using loop_octet[OF lt(3), where prev="Some (CHR ''.'')" and octs="[unat a, unat b]" and rest="CHR ''.'' # ?r3"] by blast
  obtain c4 d4 where s4: "c4 \<noteq> CHR ''.''"
    "parseIPv4_loop (Some (CHR ''.'')) 0 0 [unat a, unat b, unat c] (octet (unat d) @ []) = parseIPv4_loop (Some c4) (unat d) d4 [unat a, unat b, unat c] []"
    using loop_octet[OF lt(4), where prev="Some (CHR ''.'')" and octs="[unat a, unat b, unat c]" and rest="[]"] by blast
  have n: "?r1 \<noteq> []" "?r2 \<noteq> []" "?r3 \<noteq> []" by (simp_all add: octet_nonempty)
  have "parseIPv4_loop None 0 0 [] (ipv4_String [a, b, c, d]) = parseIPv4_loop (Some c1) (unat a) d1 [] (CHR ''.'' # ?r1)"
    using s1(2) by (simp only: dotted_form)
  also have "\<dots> = parseIPv4_loop (Some (CHR ''.'')) 0 0 [unat a] ?r1"
    using loop_dot[OF s1(1) n(1), of "[]" "unat a" d1] by simp
  also have "\<dots> = parseIPv4_loop (Some c2) (unat b) d2 [unat a] (CHR ''.'' # ?r2)"
    using s2(2) by simp
  also have "\<dots> = parseIPv4_loop (Some (CHR ''.'')) 0 0 [unat a, unat b] ?r2"
    using loop_dot[OF s2(1) n(2), of "[unat a]" "unat b" d2] by simp
  also have "\<dots> = parseIPv4_loop (Some c3) (unat c) d3 [unat a, unat b] (CHR ''.'' # ?r3)"
    using s3(2) by simp
  also have "\<dots> = parseIPv4_loop (Some (CHR ''.'')) 0 0 [unat a, unat b, unat c] ?r3"
    using loop_dot[OF s3(1) n(3), of "[unat a, unat b]" "unat c" d3] by simp
  also have "\<dots> = parseIPv4_loop (Some c4) (unat d) d4 [unat a, unat b, unat c] []"
    using s4(2) by simp
  also have "\<dots> = Some [unat a, unat b, unat c, unat d]" by (simp add: parseIPv4_loop.simps(1))
  finally show ?thesis .
qed

lemma ParseIP_dotted:
  fixes a b c d :: byte
  shows "ParseIP p6 (ipv4_String [a, b, c, d]) = Some (v4InV6 [a, b, c, d])"
proof -
  have "unat a < 256" using unsigned_less[of a, where 'a=nat] by simp
  then have "ParseIP p6 (ipv4_String [a, b, c, d]) = map_option v4InV6 (parseIPv4 (ipv4_String [a, b, c, d]))"
    unfolding ParseIP_def by (subst (2) dotted_form) (rule octet_scan)
  then show ?thesis by (simp add: parseIPv4_def parseIPv4_loop_dotted)
qed

lemma To4_v4InV6: "length p4 = 4 \<Longrightarrow> To4 (v4InV6 p4) = Some p4"
  by (simp add: To4_def v4InV6_def isZeros_def nth_append list_all_iff)

lemma length4: "length p4 = 4 \<Longrightarrow> \<exists>a b c d. p4 = [a, b, c, d]"
  by (cases p4; simp; rename_tac x xs; case_tac xs; simp; rename_tac y ys; case_tac ys; simp;
      rename_tac z zs; case_tac zs; simp)

lemma To4_length: "To4 ip = Some p4 \<Longrightarrow> length p4 = 4"
  by (auto simp: To4_def split: if_splits)

lemma range_tests:
  fixes p4 :: net_IP
  shows "(if p4 ! 0 = 10 then True
       else if p4 ! 0 = 172 \<and> p4 ! 1 \<ge> 16 \<and> p4 ! 1 \<le> 31 then True
       else if p4 ! 0 = 192 \<and> p4 ! 1 = 168 then True
       else False) =
     (unat (p4 ! 0) = 10 \<or>
       (unat (p4 ! 0) = 172 \<and> 16 \<le> unat (p4 ! 1) \<and> unat (p4 ! 1) \<le> 31) \<or>
       (unat (p4 ! 0) = 192 \<and> unat (p4 ! 1) = 168))"
  by (auto simp: word_le_nat_alt word_unat_eq_iff)


lemma IsPrivateIP_To4:
  "IsPrivateIP p6 s =
     (\<exists>ip p4. ParseIP p6 s = Some ip \<and> To4 ip = Some p4 \<and> rfc1918 p4)"
proof (cases "ParseIP p6 s")
  case None
  then show ?thesis by (simp add: IsPrivateIP_def)
next
  case (Some ip)
  show ?thesis
  proof (cases "To4 ip")
    case None
    then show ?thesis using Some by (simp add: IsPrivateIP_def)
  next
    case p4: (Some p4)
    have "length p4 = 4" using p4 by (rule To4_length)
    then show ?thesis using Some p4 range_tests[of p4]
      by (simp add: IsPrivateIP_def rfc1918_def)
  qed
qed

lemma IsPrivateIP_dotted:
  assumes "length p4 = 4"
  shows "IsPrivateIP p6 (ipv4_String p4) = rfc1918 p4"
proof -
  obtain a b c d where p: "p4 = [a, b, c, d]" using length4[OF assms] by blast
  have "ParseIP p6 (ipv4_String p4) = Some (v4InV6 p4)"
    unfolding p by (rule ParseIP_dotted)
  then show ?thesis using To4_v4InV6[OF assms] by (simp add: IsPrivateIP_To4)
qed




lemma octet_length_pos: "0 < length (octet v)"
  by (simp add: octet_nonempty)








section \<open>The scanner\<close>

lemma set_addr_loop:
  "set (addr_loop p6 U iface addrs result) =
     set result \<union> {c. \<exists>addr\<in>set addrs. from_addr p6 U iface addr c}"
proof (induction addrs arbitrary: result)
  case Nil
  then show ?case by simp
next
  case (Cons addr rest)
  show ?case
  proof (cases "To4 (addr_IP addr)")
    case None
    then have "\<And>c. \<not> from_addr p6 U iface addr c" by (simp add: from_addr_def)
    then show ?thesis using None Cons by auto
  next
    case (Some p4)
    show ?thesis
    proof (cases "IsPrivateIP p6 (ipv4_String p4)")
      case True
      then have "\<And>c. from_addr p6 U iface addr c \<longleftrightarrow>
          c = \<lparr>IP = ipv4_String p4, Interface = Name iface, Type = classifyInterface U (Name iface)\<rparr>"
        using Some by (auto simp: from_addr_def)
      then show ?thesis using Some True Cons by auto
    next
      case False
      then have "\<And>c. \<not> from_addr p6 U iface addr c" using Some by (simp add: from_addr_def)
      then show ?thesis using Some False Cons by auto
    qed
  qed
qed

lemma set_iface_loop:
  "set (iface_loop p6 U ifaces result) =
     set result \<union> {c. \<exists>iface\<in>set ifaces. \<exists>addrs. usable iface \<and> Addrs iface = Inr addrs \<and>
        (\<exists>addr\<in>set addrs. from_addr p6 U iface addr c)}"
proof (induction ifaces arbitrary: result)
  case Nil
  then show ?case by simp
next
  case (Cons iface rest)
  show ?case
  proof (cases "usable iface")
    case False
    then show ?thesis using Cons by (auto simp: usable_def)
  next
    case True
    show ?thesis
    proof (cases "Addrs iface")
      case (Inl err)
      then show ?thesis using True Cons by (auto simp: usable_def)
    next
      case (Inr addrs)
      then show ?thesis using True Cons[of "addr_loop p6 U iface addrs result"]
        by (auto simp: usable_def set_addr_loop)
    qed
  qed
qed

lemma iface_loop_filter:
  "iface_loop p6 U (filter usable ifaces) result = iface_loop p6 U ifaces result"
  by (induction ifaces arbitrary: result) (auto simp: usable_def split: sum.splits)

lemma from_addr_private:
  assumes "from_addr p6 U iface addr c"
  shows "\<exists>p4. To4 (addr_IP addr) = Some p4 \<and> rfc1918 p4 \<and> IP c = ipv4_String p4 \<and>
     IsPrivateIP p6 (IP c) \<and> Interface c = Name iface \<and> Type c = classifyInterface U (Name iface)"
proof -
  obtain p4 where p: "To4 (addr_IP addr) = Some p4" "IsPrivateIP p6 (ipv4_String p4)"
    "c = \<lparr>IP = ipv4_String p4, Interface = Name iface, Type = classifyInterface U (Name iface)\<rparr>"
    using assms by (auto simp: from_addr_def)
  have "rfc1918 p4" using p(2) IsPrivateIP_dotted[OF To4_length[OF p(1)], of p6] by simp
  then show ?thesis using p by simp
qed

text \<open>
  C2.  On a list of interfaces the scanner succeeds, and every candidate it returns comes
  from an address of an interface of the list that is up and not loopback; the address
  has a four-byte form in a private range, the candidate carries its dotted form, which
  \<open>IsPrivateIP\<close> accepts, and the name and class of that interface.  Interfaces that
  are down or loopback contribute nothing: removing them from the list leaves the
  result as it is.
\<close>

theorem GetAllInterfaces_private:
  "GetAllInterfaces p6 U (Inr ifaces) = Inr (iface_loop p6 U ifaces [])
   \<and> (\<forall>c\<in>set (iface_loop p6 U ifaces []).
        \<exists>iface\<in>set ifaces. \<exists>addrs. \<exists>addr\<in>set addrs. \<exists>p4.
          Flags iface AND FlagUp \<noteq> 0 \<and> Flags iface AND FlagLoopback = 0 \<and>
          Addrs iface = Inr addrs \<and> To4 (addr_IP addr) = Some p4 \<and> rfc1918 p4 \<and>
          IP c = ipv4_String p4 \<and> IsPrivateIP p6 (IP c) \<and>
          Interface c = Name iface \<and> Type c = classifyInterface U (Name iface))
   \<and> GetAllInterfaces p6 U (Inr (filter usable ifaces)) = GetAllInterfaces p6 U (Inr ifaces)"
proof -
  have "\<forall>c\<in>set (iface_loop p6 U ifaces []).
        \<exists>iface\<in>set ifaces. \<exists>addrs. \<exists>addr\<in>set addrs. \<exists>p4.
          Flags iface AND FlagUp \<noteq> 0 \<and> Flags iface AND FlagLoopback = 0 \<and>
          Addrs iface = Inr addrs \<and> To4 (addr_IP addr) = Some p4 \<and> rfc1918 p4 \<and>
          IP c = ipv4_String p4 \<and> IsPrivateIP p6 (IP c) \<and>
          Interface c = Name iface \<and> Type c = classifyInterface U (Name iface)"
  proof
    fix c assume "c \<in> set (iface_loop p6 U ifaces [])"
    then obtain iface addrs addr where o: "iface \<in> set ifaces" "usable iface"
      "Addrs iface = Inr addrs" "addr \<in> set addrs" "from_addr p6 U iface addr c"
      by (auto simp: set_iface_loop)
    from from_addr_private[OF o(5)] o(1-4)
    show "\<exists>iface\<in>set ifaces. \<exists>addrs. \<exists>addr\<in>set addrs. \<exists>p4.
          Flags iface AND FlagUp \<noteq> 0 \<and> Flags iface AND FlagLoopback = 0 \<and>
          Addrs iface = Inr addrs \<and> To4 (addr_IP addr) = Some p4 \<and> rfc1918 p4 \<and>
          IP c = ipv4_String p4 \<and> IsPrivateIP p6 (IP c) \<and>
          Interface c = Name iface \<and> Type c = classifyInterface U (Name iface)"
      unfolding usable_def by blast
  qed
  then show ?thesis by (simp add: GetAllInterfaces_def iface_loop_filter)
qed

theorem GetAllInterfaces_private_witness:
  "\<lparr>IP = ''10.0.0.5'', Interface = ''eth0'', Type = ''ethernet''\<rparr>
     \<in> set (iface_loop (\<lambda>s. None) (\<lambda>s. s)
         [\<lparr>Name = ''eth0'', Flags = 1, Addrs = Inr [IPNet [10,0,0,5] [255,0,0,0], IPNet [8,8,8,8] [255,0,0,0]]\<rparr>,
          \<lparr>Name = ''lo'', Flags = 5, Addrs = Inr [IPNet [127,0,0,1] [255,0,0,0]]\<rparr>,
          \<lparr>Name = ''wlan0'', Flags = 0, Addrs = Inr [IPNet [192,168,0,5] [255,255,255,0]]\<rparr>,
          \<lparr>Name = ''docker0'', Flags = 1, Addrs = Inr [IPAddr [172,17,0,1] [], OtherAddr]\<rparr>] [])
   \<and> IsPrivateIP (\<lambda>s. None) ''10.0.0.5''
   \<and> GetAllInterfaces (\<lambda>s. None) (\<lambda>s. s)
     (Inr [\<lparr>Name = ''eth0'', Flags = 1, Addrs = Inr [IPNet [10,0,0,5] [255,0,0,0], IPNet [8,8,8,8] [255,0,0,0]]\<rparr>,
           \<lparr>Name = ''lo'', Flags = 5, Addrs = Inr [IPNet [127,0,0,1] [255,0,0,0]]\<rparr>,
           \<lparr>Name = ''wlan0'', Flags = 0, Addrs = Inr [IPNet [192,168,0,5] [255,255,255,0]]\<rparr>,
           \<lparr>Name = ''docker0'', Flags = 1, Addrs = Inr [IPAddr [172,17,0,1] [], OtherAddr]\<rparr>])
   = Inr [\<lparr>IP = ''10.0.0.5'', Interface = ''eth0'', Type = ''ethernet''\<rparr>,
          \<lparr>IP = ''172.17.0.1'', Interface = ''docker0'', Type = ''virtual''\<rparr>]"
proof -
  let ?ifs = "[\<lparr>Name = ''eth0'', Flags = 1, Addrs = Inr [IPNet [10,0,0,5] [255,0,0,0], IPNet [8,8,8,8] [255,0,0,0]]\<rparr>,
           \<lparr>Name = ''lo'', Flags = 5, Addrs = Inr [IPNet [127,0,0,1] [255,0,0,0]]\<rparr>,
           \<lparr>Name = ''wlan0'', Flags = 0, Addrs = Inr [IPNet [192,168,0,5] [255,255,255,0]]\<rparr>,
           \<lparr>Name = ''docker0'', Flags = 1, Addrs = Inr [IPAddr [172,17,0,1] [], OtherAddr]\<rparr>]"
  let ?c = "\<lparr>IP = ''10.0.0.5'', Interface = ''eth0'', Type = ''ethernet''\<rparr>"
  have run: "iface_loop (\<lambda>s. None) (\<lambda>s. s) ?ifs []
     = [?c, \<lparr>IP = ''172.17.0.1'', Interface = ''docker0'', Type = ''virtual''\<rparr>]"
    by code_simp
  then have mem: "?c \<in> set (iface_loop (\<lambda>s. None) (\<lambda>s. s) ?ifs [])"
    by simp
  have all: "\<forall>c\<in>set (iface_loop (\<lambda>s. None) (\<lambda>s. s) ?ifs []). IsPrivateIP (\<lambda>s. None) (IP c)"
    using GetAllInterfaces_private[of "\<lambda>s. None" "\<lambda>s. s" ?ifs] by blast
  have "IsPrivateIP (\<lambda>s. None) (IP ?c)"
    using all mem by (rule bspec)
  then show ?thesis
    using run mem GetAllInterfaces_private[of "\<lambda>s. None" "\<lambda>s. s" ?ifs] by simp
qed

section \<open>The URL rewrite\<close>

lemma replace_from_same_aux: "new = old \<Longrightarrow> replace_from old new s = s"
proof (induction old new s rule: replace_from.induct)
  case (1 old new)
  then show ?case by simp
next
  case (2 old new c cs)
  show ?case
  proof (cases "old \<noteq> [] \<and> HasPrefix (c # cs) old")
    case True
    then have "take (length old) (c # cs) = old" by (simp add: HasPrefix_def)
    then have "old @ drop (length old) (c # cs) = c # cs"
      by (metis append_take_drop_id)
    then show ?thesis using True 2 by simp
  next
    case False
    then show ?thesis using 2 by auto
  qed
qed

lemma replace_from_same: "replace_from old old s = s"
  by (rule replace_from_same_aux) (rule refl)

lemma ReplaceAll_replace_from: "ReplaceAll s old new = replace_from old new s"
  by (simp add: ReplaceAll_def replace_from_same)

lemma replace_from_absent: "\<not> Contains s old \<Longrightarrow> replace_from old new s = s"
  by (induction s) auto

lemma replace_from_skip:
  "\<not> starts_in old s rest \<Longrightarrow> replace_from old new (s @ rest) = s @ replace_from old new rest"
  by (induction s) (auto simp: HasPrefix_prefix)

lemma replace_from_hit:
  "old \<noteq> [] \<Longrightarrow> replace_from old new (old @ rest) = new @ replace_from old new rest"
  by (cases old) (auto simp: HasPrefix_def)

lemma replace_from_pieces:
  assumes "tok \<noteq> []" "piece_text target = tok"
  shows "only_marked tok target ps \<Longrightarrow>
     replace_from tok new (render ps) = concat (map (\<lambda>p. if p = target then new else piece_text p) ps)"
proof (induction ps)
  case Nil
  then show ?case by (simp add: render_def)
next
  case (Cons p ps)
  have r: "render (p # ps) = piece_text p @ render ps" by (simp add: render_def)
  show ?case
  proof (cases "p = target")
    case True
    then have "render (p # ps) = tok @ render ps" using assms by (simp add: render_def)
    then show ?thesis using True Cons assms replace_from_hit[of tok new "render ps"] by simp
  next
    case False
    then have "\<not> starts_in tok (piece_text p) (render ps)" using Cons.prems by simp
    then show ?thesis using False Cons by (simp add: r replace_from_skip)
  qed
qed

lemma first_pass_render:
  "concat (map (\<lambda>p. if p = Localhost then ip else piece_text p) ps) = render (map (after_first_pass ip) ps)"
proof (induction ps)
  case Nil
  then show ?case by (simp add: render_def)
next
  case (Cons p ps)
  then show ?case by (cases p) (simp_all add: render_def)
qed

lemma second_pass_subst:
  "concat (map ((\<lambda>p. if p = Loopback then ip else piece_text p) \<circ> after_first_pass ip) ps) = subst ip ps"
proof (induction ps)
  case Nil
  then show ?case by (simp add: subst_def)
next
  case (Cons p ps)
  then show ?case by (cases p) (simp_all add: subst_def)
qed

text \<open>
  C5, as amended.  A value in which neither token occurs is returned unchanged.  For a
  value given as pieces of text and tokens, every token is replaced by the address,
  provided that no other occurrence of \<open>localhost\<close> begins inside a piece, and that,
  once each \<open>localhost\<close> has become the address, no other occurrence of
  \<open>127.0.0.1\<close> begins inside a piece.
\<close>

theorem transformURL_pieces:
  "(\<not> Contains url ''localhost'' \<and> \<not> Contains url ''127.0.0.1'' \<longrightarrow> transformURL url ip = url)
   \<and> (only_marked ''localhost'' Localhost ps \<and>
        only_marked ''127.0.0.1'' Loopback (map (after_first_pass ip) ps) \<longrightarrow>
        transformURL (render ps) ip = subst ip ps)"
proof -
  have a: "\<not> Contains url ''localhost'' \<and> \<not> Contains url ''127.0.0.1'' \<longrightarrow> transformURL url ip = url"
    by (simp add: transformURL_def ReplaceAll_replace_from replace_from_absent)
  have b: "transformURL (render ps) ip = subst ip ps"
    if m: "only_marked ''localhost'' Localhost ps"
      "only_marked ''127.0.0.1'' Loopback (map (after_first_pass ip) ps)"
  proof -
    have "replace_from ''localhost'' ip (render ps) = render (map (after_first_pass ip) ps)"
      using replace_from_pieces[OF _ _ m(1), of ip] by (simp add: first_pass_render)
    moreover have "replace_from ''127.0.0.1'' ip (render (map (after_first_pass ip) ps)) = subst ip ps"
      using replace_from_pieces[OF _ _ m(2), of ip] by (simp add: second_pass_subst)
    ultimately show ?thesis by (simp add: transformURL_def ReplaceAll_replace_from)
  qed
  from a b show ?thesis by blast
qed

theorem transformURL_pieces_witness:
  "only_marked ''localhost'' Localhost
      [Text ''http://'', Localhost, Text '':8000?x=http://'', Loopback, Text '':3000'']
   \<and> only_marked ''127.0.0.1'' Loopback (map (after_first_pass ''192.168.1.100'')
      [Text ''http://'', Localhost, Text '':8000?x=http://'', Loopback, Text '':3000''])
   \<and> transformURL ''http://localhost:8000?x=http://127.0.0.1:3000'' ''192.168.1.100''
       = ''http://192.168.1.100:8000?x=http://192.168.1.100:3000''
   \<and> \<not> Contains ''http://192.168.1.50:8000'' ''localhost''
   \<and> \<not> Contains ''http://192.168.1.50:8000'' ''127.0.0.1''
   \<and> transformURL ''http://192.168.1.50:8000'' ''192.168.1.100'' = ''http://192.168.1.50:8000''"
proof -
  let ?ps = "[Text ''http://'', Localhost, Text '':8000?x=http://'', Loopback, Text '':3000'']"
  have a: "only_marked ''localhost'' Localhost ?ps" by code_simp
  have b: "only_marked ''127.0.0.1'' Loopback (map (after_first_pass ''192.168.1.100'') ?ps)"
    by code_simp
  have c: "\<not> Contains ''http://192.168.1.50:8000'' ''localhost''
     \<and> \<not> Contains ''http://192.168.1.50:8000'' ''127.0.0.1''"
    by code_simp
  have r: "render ?ps = ''http://localhost:8000?x=http://127.0.0.1:3000''"
    by (simp add: render_def)
  have s: "subst ''192.168.1.100'' ?ps = ''http://192.168.1.100:8000?x=http://192.168.1.100:3000''"
    by (simp add: subst_def)
  show ?thesis
    using a b c transformURL_pieces[of "''http://192.168.1.50:8000''" "''192.168.1.100''" ?ps]
    by (simp only: r s simp_thms)
qed

text \<open>
  C5 as stated fails: the value \<open>127.0.0.localhost\<close> contains \<open>localhost\<close> once
  and \<open>127.0.0.1\<close> nowhere, so with the address \<open>10.0.0.1\<close> the claim gives
  \<open>127.0.0.10.0.0.1\<close>; the second pass of the code finds \<open>127.0.0.1\<close> in that
  string and the result is \<open>10.0.0.10.0.0.1\<close>.
\<close>

theorem transformURL_counterexample:
  "render [Text ''127.0.0.'', Localhost] = ''127.0.0.localhost''
   \<and> \<not> Contains ''127.0.0.'' ''localhost'' \<and> \<not> Contains ''127.0.0.'' ''127.0.0.1''
   \<and> \<not> Contains ''127.0.0.localhost'' ''127.0.0.1''
   \<and> subst ''10.0.0.1'' [Text ''127.0.0.'', Localhost] = ''127.0.0.10.0.0.1''
   \<and> transformURL ''127.0.0.localhost'' ''10.0.0.1'' = ''10.0.0.10.0.0.1''
   \<and> transformURL (render [Text ''127.0.0.'', Localhost]) ''10.0.0.1''
       \<noteq> subst ''10.0.0.1'' [Text ''127.0.0.'', Localhost]"
  by code_simp

end
